theory Spec2Isabelle
  imports
    Complex_Main
    "HOL-Library.Sublist"
    "HOL-Library.Multiset"
    "HOL-Library.Product_Lexorder"
begin

section \<open>Python strings\<close>

text \<open>
  A Python \<open>str\<close> is modelled as a \<open>string\<close> whose characters stand for the code
  points below 256. \<open>is_space\<close> is \<open>str.isspace\<close> on those code points (it is
  also what \<open>\s\<close> of the \<open>re\<close> module matches), \<open>py_lower\<close> is
  \<open>str.lower\<close> there.
\<close>

definition is_space :: "char \<Rightarrow> bool" where
  "is_space c =
     (let n = (of_char c :: nat)
      in (9 \<le> n \<and> n \<le> 13) \<or> (28 \<le> n \<and> n \<le> 32) \<or> n = 133 \<or> n = 160)"

definition lower_char :: "char \<Rightarrow> char" where
  "lower_char c =
     (let n = (of_char c :: nat)
      in if (65 \<le> n \<and> n \<le> 90) \<or> (192 \<le> n \<and> n \<le> 222 \<and> n \<noteq> 215)
         then char_of (n + 32) else c)"

definition py_lower :: "string \<Rightarrow> string" where
  "py_lower s = map lower_char s"

text \<open>\<open>s.split()\<close>: the maximal runs of non-whitespace characters, in order.
  \<open>split_from w s\<close> scans \<open>s\<close> with the word \<open>w\<close> read so far.\<close>

fun split_from :: "string \<Rightarrow> string \<Rightarrow> string list" where
  "split_from w [] = (if w = [] then [] else [w])"
| "split_from w (c # cs) =
     (if is_space c
      then (if w = [] then split_from [] cs else w # split_from [] cs)
      else split_from (w @ [c]) cs)"

definition py_split :: "string \<Rightarrow> string list" where
  "py_split s = split_from [] s"

text \<open>\<open>sep.join(ws)\<close>.\<close>

fun py_join :: "string \<Rightarrow> string list \<Rightarrow> string" where
  "py_join sep [] = []"
| "py_join sep [w] = w"
| "py_join sep (w # v # ws) = w @ sep @ py_join sep (v # ws)"

text \<open>\<open>s.strip()\<close>: leading and trailing whitespace removed.\<close>

definition py_strip :: "string \<Rightarrow> string" where
  "py_strip s = rev (dropWhile is_space (rev (dropWhile is_space s)))"

text \<open>\<open>sub in s\<close> for strings.\<close>

fun py_in :: "string \<Rightarrow> string \<Rightarrow> bool" where
  "py_in sub [] = (sub = [])"
| "py_in sub (c # cs) = (prefix sub (c # cs) \<or> py_in sub cs)"

text \<open>\<open>s.replace(old, new)\<close> for a non-empty \<open>old\<close>: every occurrence, scanning from
  the left, occurrences not overlapping. Every step consumes at least one character, so
  the scan is bounded by the length of \<open>s\<close>, which \<open>replace_fuel\<close> counts down.\<close>

fun replace_fuel :: "nat \<Rightarrow> string \<Rightarrow> string \<Rightarrow> string \<Rightarrow> string" where
  "replace_fuel 0 old new s = s"
| "replace_fuel (Suc k) old new s =
     (case s of
        [] \<Rightarrow> []
      | c # cs \<Rightarrow>
          if prefix old s then new @ replace_fuel k old new (drop (length old) s)
          else c # replace_fuel k old new cs)"

definition py_replace :: "string \<Rightarrow> string \<Rightarrow> string \<Rightarrow> string" where
  "py_replace old new s = (if old = [] then s else replace_fuel (length s) old new s)"

text \<open>\<open>xs[:n]\<close> for a Python integer \<open>n\<close>: a negative \<open>n\<close> counts from the end.\<close>

definition py_slice_to :: "int \<Rightarrow> 'a list \<Rightarrow> 'a list" where
  "py_slice_to n xs = (if 0 \<le> n then take (nat n) xs else take (length xs - nat (- n)) xs)"

section \<open>Python floats\<close>

text \<open>
  A finite Python float is an IEEE 754 double, which is a rational number; the model takes
  a float as that rational. An arithmetic operation on floats gives the exact result
  rounded to the nearest double, ties to the even significand. \<open>round_to_double\<close> is
  that rounding: \<open>floor_log2 x\<close> is the exponent \<open>e\<close> with \<open>2^e \<le> x < 2^(e+1)\<close>,
  a double in that range is a multiple of \<open>2^(e-52)\<close>, and below \<open>2^(-1022)\<close> the
  doubles are the multiples of \<open>2^(-1074)\<close>. Results of magnitude \<open>2^1024\<close> and above
  (infinity in Python) and NaN are not modelled.
\<close>

function bit_length :: "int \<Rightarrow> nat" where
  "bit_length p = (if p \<le> 0 then 0 else Suc (bit_length (p div 2)))"
  by pat_completeness auto
termination
  by (relation "measure nat") auto

declare bit_length.simps [simp del]

definition floor_log2 :: "rat \<Rightarrow> int" where
  "floor_log2 x =
     (if 1 \<le> x then int (bit_length \<lfloor>x\<rfloor>) - 1
      else - int (bit_length (\<lceil>1 / x\<rceil> - 1)))"

definition round_half_even :: "rat \<Rightarrow> int" where
  "round_half_even y =
     (let f = \<lfloor>y\<rfloor>; r = y - of_int f
      in if r < 1 / 2 then f else if 1 / 2 < r then f + 1 else if even f then f else f + 1)"

definition round_to_double :: "rat \<Rightarrow> rat" where
  "round_to_double x =
     (if x = 0 then 0
      else let e = max (floor_log2 \<bar>x\<bar>) (- 1022); q = 2 powi (e - 52)
           in of_int (round_half_even (x / q)) * q)"

text \<open>The product \<open>x * y\<close> of two floats, and the float that the literal \<open>1.1\<close>
  denotes.\<close>

definition float_mul :: "rat \<Rightarrow> rat \<Rightarrow> rat" where
  "float_mul x y = round_to_double (x * y)"

definition float_1_1 :: rat where
  "float_1_1 = round_to_double (11 / 10)"

section \<open>config/settings.py\<close>

text \<open>
  The tunable parameters of \<open>config/settings.py\<close> that the filter and the analyzer read.
  \<open>GEMINI_API_KEY\<close> comes from the environment (\<open>None\<close> when unset); the alias table
  is \<open>TICKER_ALIASES\<close>, a dict from ticker to its aliases. The properties below hold for
  every value of these parameters, unless they say otherwise. The batch size is a natural
  number here; a negative one is not modelled.
\<close>

record settings =
  GEMINI_API_KEY :: "string option"
  GEMINI_MODEL :: string
  GEMINI_BATCH_SIZE :: nat
  NEWS_DAYS_BACK :: int
  MAX_ARTICLES_PER_STOCK :: int
  MAX_WORDS_PER_ARTICLE :: int
  FUZZY_MATCH_THRESHOLD :: rat
  TICKER_ALIASES :: "(string \<times> string list) list"

text \<open>The values the file sets, for a given environment and alias table.\<close>

definition settings_py :: "string option \<Rightarrow> (string \<times> string list) list \<Rightarrow> settings" where
  "settings_py key aliases =
     \<lparr> GEMINI_API_KEY = key,
       GEMINI_MODEL = ''gemini-2.5-flash-lite'',
       GEMINI_BATCH_SIZE = 5,
       NEWS_DAYS_BACK = 1,
       MAX_ARTICLES_PER_STOCK = 5,
       MAX_WORDS_PER_ARTICLE = 300,
       FUZZY_MATCH_THRESHOLD = 70,
       TICKER_ALIASES = aliases \<rparr>"

section \<open>src/news\_filter.py: text helpers\<close>

text \<open>\<open>truncate_text(text, max_words)\<close>.\<close>

definition truncate_text :: "string \<Rightarrow> int \<Rightarrow> string" where
  "truncate_text text max_words =
     (let words = py_split text
      in if int (length words) \<le> max_words then text
         else py_join '' '' (py_slice_to max_words words) @ ''...'')"

text \<open>The number of words of a text, as \<open>len(text.split())\<close>.\<close>

definition word_count :: "string \<Rightarrow> nat" where
  "word_count s = length (py_split s)"

section \<open>The data of a run\<close>

text \<open>
  An article is the dict that \<open>fetch_rss_feed\<close> builds: the keys \<open>title\<close>,
  \<open>link\<close>, \<open>summary\<close>, \<open>published\<close> and \<open>source\<close> are always set,
  \<open>published\<close> is \<open>None\<close> when the feed entry carries no date, and \<open>body\<close> is
  set only when the article body was scraped. A timestamp is a timezone-aware
  \<open>datetime\<close>, modelled as its number of microseconds since the epoch.
\<close>

record article =
  title :: string
  link :: string
  summary :: string
  published :: "int option"
  source :: string
  body :: "string option"

text \<open>
  A holding is the dict that \<open>sheet_reader\<close> builds; only the keys that the filter
  and the analyzer read are kept. The amounts are what \<open>clean_number\<close> returns: a
  float or \<open>None\<close>. A float is the rational it denotes (see the section on floats).
\<close>

record stock =
  ticker :: string
  yahoo_ticker :: string
  name :: string
  market :: string
  sector :: string
  invested_inr :: "rat option"
  gain_pct :: "rat option"
  profit_inr :: "rat option"

text \<open>
  The two scores of the \<open>rapidfuzz\<close> library that the filter calls. The library is
  not part of the repository; its functions are parameters of the model.
\<close>

record fuzz =
  partial_ratio :: "string \<Rightarrow> string \<Rightarrow> rat"
  token_sort_ratio :: "string \<Rightarrow> string \<Rightarrow> rat"

section \<open>src/news\_fetcher.py: is\_recent\<close>

definition microseconds_per_day :: int where
  "microseconds_per_day = 86400000000"

text \<open>\<open>is_recent(article, days_back)\<close>, with \<open>now\<close> the value of
  \<open>datetime.now(timezone.utc)\<close>.\<close>

definition is_recent :: "int \<Rightarrow> article \<Rightarrow> int \<Rightarrow> bool" where
  "is_recent now article days_back =
     (case published article of
        None \<Rightarrow> True
      | Some pub \<Rightarrow> now - days_back * microseconds_per_day \<le> pub)"

section \<open>src/news\_filter.py\<close>

text \<open>
  \<open>get_aliases_for_stock(stock)\<close>. The source collects the aliases in a set and
  returns \<open>list(aliases)\<close>, whose order Python leaves open; the model lists them in
  order of insertion, without repetition. Its only caller asks whether some alias
  matches, which does not depend on the order.
\<close>

definition get_aliases_for_stock :: "settings \<Rightarrow> stock \<Rightarrow> string list" where
  "get_aliases_for_stock cfg stock =
     (let t = ticker stock;
          n = name stock;
          y = yahoo_ticker stock;
          ids = [py_lower t, py_lower y];
          keys = [t, y, py_replace ''NSE:'' [] t, py_replace ''BSE:'' [] t];
          from_table = concat (map (\<lambda>key. case map_of (TICKER_ALIASES cfg) key of
                                           None \<Rightarrow> []
                                         | Some als \<Rightarrow> map py_lower als) keys);
          from_name = (if n = [] then []
                       else py_lower n #
                            (case filter (\<lambda>w. 4 \<le> length w) (py_split n) of
                               [] \<Rightarrow> []
                             | w # _ \<Rightarrow> [py_lower w]))
      in remdups (ids @ from_table @ from_name))"

text \<open>The loop over the aliases in \<open>is_article_relevant\<close>.\<close>

fun alias_loop :: "rat \<Rightarrow> (string \<Rightarrow> string \<Rightarrow> rat) \<Rightarrow> string \<Rightarrow> string list \<Rightarrow> bool" where
  "alias_loop threshold ratio text [] = False"
| "alias_loop threshold ratio text (alias # rest) =
     (if alias = [] \<or> length alias < 3 then alias_loop threshold ratio text rest
      else if py_in alias text then True
      else if threshold \<le> ratio alias text then True
      else alias_loop threshold ratio text rest)"

text \<open>\<open>is_article_relevant(article, stock, from_sector_feed)\<close>.\<close>

definition is_article_relevant :: "settings \<Rightarrow> fuzz \<Rightarrow> article \<Rightarrow> stock \<Rightarrow> bool \<Rightarrow> bool" where
  "is_article_relevant cfg fz article stock from_sector_feed =
     (if \<not> from_sector_feed then True
      else let text = py_lower (title article @ '' '' @ summary article);
               aliases = get_aliases_for_stock cfg stock
           in alias_loop (FUZZY_MATCH_THRESHOLD cfg) (partial_ratio fz) text aliases)"

text \<open>\<open>normalize_for_dedup(title)\<close>: lower case, every character outside
  \<open>[a-z0-9\s]\<close> removed, every run of whitespace turned into one space, then
  stripped. \<open>collapse_ws in_run s\<close> is the second substitution, \<open>in_run\<close> telling
  that the character before was whitespace.\<close>

definition is_alnum_or_space :: "char \<Rightarrow> bool" where
  "is_alnum_or_space c =
     (let n = (of_char c :: nat)
      in (97 \<le> n \<and> n \<le> 122) \<or> (48 \<le> n \<and> n \<le> 57) \<or> is_space c)"

fun collapse_ws :: "bool \<Rightarrow> string \<Rightarrow> string" where
  "collapse_ws in_run [] = []"
| "collapse_ws in_run (c # cs) =
     (if is_space c
      then (if in_run then collapse_ws True cs else CHR '' '' # collapse_ws True cs)
      else c # collapse_ws False cs)"

definition normalize_for_dedup :: "string \<Rightarrow> string" where
  "normalize_for_dedup t =
     py_strip (collapse_ws False (filter is_alnum_or_space (py_lower t)))"

text \<open>\<open>is_duplicate_title(title, seen_titles, threshold)\<close>.\<close>

fun seen_loop :: "(string \<Rightarrow> string \<Rightarrow> rat) \<Rightarrow> string \<Rightarrow> rat \<Rightarrow> string list \<Rightarrow> bool" where
  "seen_loop ratio normed threshold [] = False"
| "seen_loop ratio normed threshold (seen # rest) =
     (if threshold \<le> ratio normed seen then True else seen_loop ratio normed threshold rest)"

definition is_duplicate_title :: "fuzz \<Rightarrow> string \<Rightarrow> string list \<Rightarrow> rat \<Rightarrow> bool" where
  "is_duplicate_title fz t seen_titles threshold =
     seen_loop (token_sort_ratio fz) (normalize_for_dedup t) threshold seen_titles"

subsection \<open>The per-holding filter, on a store of article dicts\<close>

text \<open>
  The source passes article dicts by reference and copies the ones it keeps
  (\<open>article.copy()\<close>) before it truncates their fields. The model keeps the dicts in
  a store: \<open>cell\<close> gives the dict at an address, every address below \<open>fresh\<close> is
  allocated, and a copy takes the address \<open>fresh\<close>. A list of articles is a list of
  addresses.
\<close>

type_synonym addr = nat

record store =
  cell :: "addr \<Rightarrow> article"
  fresh :: addr

definition dict_copy :: "store \<Rightarrow> addr \<Rightarrow> addr \<times> store" where
  "dict_copy h a = (fresh h, h\<lparr> cell := (cell h)(fresh h := cell h a), fresh := Suc (fresh h) \<rparr>)"

definition dict_update :: "store \<Rightarrow> addr \<Rightarrow> (article \<Rightarrow> article) \<Rightarrow> store" where
  "dict_update h p f = h\<lparr> cell := (cell h)(p := f (cell h p)) \<rparr>"

text \<open>The counters \<open>stats\<close> and the variables of the loop.\<close>

record stats =
  too_old :: nat
  irrelevant :: nat
  duplicate :: nat
  kept :: nat

record filter_state =
  heap :: store
  filtered :: "addr list"
  seen_normalized_titles :: "string list"
  counters :: stats

text \<open>Step 4 of the loop body: the copy and the truncation of its text fields.\<close>

definition truncate_fields :: "settings \<Rightarrow> article \<Rightarrow> article" where
  "truncate_fields cfg processed =
     (let p1 = (case body processed of
                  None \<Rightarrow> processed
                | Some b \<Rightarrow> if b = [] then processed
                            else processed\<lparr> body := Some (truncate_text b (MAX_WORDS_PER_ARTICLE cfg)) \<rparr>)
      in if summary p1 = [] then p1
         else p1\<lparr> summary := truncate_text (summary p1) 150 \<rparr>)"

text \<open>One pass of the loop body for the article at address \<open>a\<close>; the flag tells
  whether the loop breaks after it.\<close>

definition filter_body ::
  "settings \<Rightarrow> fuzz \<Rightarrow> int \<Rightarrow> stock \<Rightarrow> int \<Rightarrow> bool \<Rightarrow> addr \<Rightarrow> filter_state \<Rightarrow> filter_state \<times> bool" where
  "filter_body cfg fz cutoff stock max_articles from_sector_feed a st =
     (let article = cell (heap st) a;
          c = counters st
      in if (case published article of None \<Rightarrow> False | Some pub \<Rightarrow> pub < cutoff)
         then (st\<lparr> counters := c\<lparr> too_old := too_old c + 1 \<rparr> \<rparr>, False)
         else if \<not> is_article_relevant cfg fz article stock from_sector_feed
         then (st\<lparr> counters := c\<lparr> irrelevant := irrelevant c + 1 \<rparr> \<rparr>, False)
         else if is_duplicate_title fz (title article) (seen_normalized_titles st) 70
         then (st\<lparr> counters := c\<lparr> duplicate := duplicate c + 1 \<rparr> \<rparr>, False)
         else
           let seen = seen_normalized_titles st @ [normalize_for_dedup (title article)];
               (p, h1) = dict_copy (heap st) a;
               h2 = dict_update h1 p (truncate_fields cfg);
               kept_list = filtered st @ [p]
           in (\<lparr> heap = h2, filtered = kept_list, seen_normalized_titles = seen,
                 counters = c\<lparr> kept := kept c + 1 \<rparr> \<rparr>,
               max_articles \<le> int (length kept_list)))"

fun filter_loop ::
  "settings \<Rightarrow> fuzz \<Rightarrow> int \<Rightarrow> stock \<Rightarrow> int \<Rightarrow> bool \<Rightarrow> addr list \<Rightarrow> filter_state \<Rightarrow> filter_state" where
  "filter_loop cfg fz cutoff stock max_articles from_sector_feed [] st = st"
| "filter_loop cfg fz cutoff stock max_articles from_sector_feed (a # rest) st =
     (case filter_body cfg fz cutoff stock max_articles from_sector_feed a st of
        (st', stop) \<Rightarrow>
          if stop then st'
          else filter_loop cfg fz cutoff stock max_articles from_sector_feed rest st')"

text \<open>
  \<open>filter_news_for_stock(articles, stock, days_back, max_articles, from_sector_feed)\<close>,
  run at time \<open>now\<close> on the store \<open>h\<close>. It returns the final state of the loop:
  \<open>filtered\<close> is the returned list, \<open>heap\<close> the store on return, \<open>counters\<close> the
  statistics that the source logs.
\<close>

definition filter_news_for_stock ::
  "settings \<Rightarrow> fuzz \<Rightarrow> int \<Rightarrow> store \<Rightarrow> addr list \<Rightarrow> stock \<Rightarrow> int \<Rightarrow> int \<Rightarrow> bool \<Rightarrow> filter_state" where
  "filter_news_for_stock cfg fz now h articles stock days_back max_articles from_sector_feed =
     filter_loop cfg fz (now - days_back * microseconds_per_day) stock max_articles
       from_sector_feed articles
       \<lparr> heap = h, filtered = [], seen_normalized_titles = [],
         counters = \<lparr> too_old = 0, irrelevant = 0, duplicate = 0, kept = 0 \<rparr> \<rparr>"

section \<open>src/gemini\_analyzer.py: the retry and fallback controller\<close>




datatype error = ValueError | AttributeError | TypeError | ZeroDivisionError



















section \<open>src/gemini\_analyzer.py: the daily analysis\<close>

text \<open>
  The filtered news map is a dict from ticker to \<open>{"stock": ..., "articles": ...}\<close>,
  modelled as the list of its items in the order of the dict (the keys of a dict are
  distinct). The analyzer reads the kept articles and does not change them, so they
  are values here.
\<close>

record news_entry =
  entry_stock :: stock
  entry_articles :: "article list"

type_synonym news_item = "string \<times> news_entry"






text \<open>\<open>sort_by_investment(stock_list)\<close> with its inner \<open>sort_key(item)\<close>, here
  \<open>investment_key\<close>: \<open>invested * market_boost\<close> is a product of floats, the boost being
  the float \<open>1.1\<close> or \<open>1.0\<close>, and the negation is exact. Python's \<open>sorted\<close> is
  stable, as \<open>sort_key\<close> of the list library is.\<close>

definition investment_key :: "news_item \<Rightarrow> rat" where
  "investment_key item =
     (case item of (t, data) \<Rightarrow>
        let s = entry_stock data;
            invested = (case invested_inr s of None \<Rightarrow> 0 | Some v \<Rightarrow> v);
            market_boost = (if market s = ''IN'' then float_1_1 else 1)
        in - float_mul invested market_boost)"

definition sort_by_investment :: "news_item list \<Rightarrow> news_item list" where
  "sort_by_investment stock_list = sort_key investment_key stock_list"

text \<open>\<open>range(0, n, step)\<close> for a positive \<open>step\<close>, and the batches
  \<open>[sorted_items[i:i + batch_size] for i in range(0, len(sorted_items), batch_size)]\<close>.
  \<open>range\<close> raises a ValueError for the step 0.\<close>

definition range_step :: "nat \<Rightarrow> nat \<Rightarrow> nat list" where
  "range_step n step = map (\<lambda>k. k * step) [0..<(n + step - 1) div step]"

definition batches_of :: "nat \<Rightarrow> 'a list \<Rightarrow> error + 'a list list" where
  "batches_of batch_size sorted_items =
     (if batch_size = 0 then Inl ValueError
      else Inr (map (\<lambda>i. take batch_size (drop i sorted_items))
                  (range_step (length sorted_items) batch_size)))"














section \<open>Notions used to state the properties\<close>

text \<open>The store after the loop body has kept the article at \<open>a\<close>: the truncated copy
  sits at the address that was fresh.\<close>

definition kept_store :: "settings \<Rightarrow> store \<Rightarrow> addr \<Rightarrow> store" where
  "kept_store cfg h a = h\<lparr> cell := (cell h)(fresh h := truncate_fields cfg (cell h a)), fresh := Suc (fresh h) \<rparr>"

text \<open>An article whose summary and body are within the word caps.\<close>

definition within_caps :: "settings \<Rightarrow> article \<Rightarrow> bool" where
  "within_caps cfg art =
     (word_count (summary art) \<le> 150 \<and>
      (case body art of None \<Rightarrow> True | Some b \<Rightarrow> int (word_count b) \<le> MAX_WORDS_PER_ARTICLE cfg))"

text \<open>The invested amount of a holding (0 when unknown), whether it is of the boosted
  market, and its boosted amount: the product that the sort key negates.\<close>

definition invested_amount :: "news_item \<Rightarrow> rat" where
  "invested_amount item = (case invested_inr (entry_stock (snd item)) of None \<Rightarrow> 0 | Some v \<Rightarrow> v)"

definition in_boosted_market :: "news_item \<Rightarrow> bool" where
  "in_boosted_market item = (market (entry_stock (snd item)) = ''IN'')"

definition boosted_amount :: "news_item \<Rightarrow> rat" where
  "boosted_amount item =
     float_mul (invested_amount item) (if in_boosted_market item then float_1_1 else 1)"

text \<open>An amount that is a float, small enough for its boosted amount to be finite.\<close>

definition float_amount :: "rat \<Rightarrow> bool" where
  "float_amount x = (round_to_double x = x \<and> \<bar>x\<bar> \<le> 2 ^ 1023)"











section \<open>Sample inputs\<close>

text \<open>A filtered news item with a given ticker, market and invested amount.\<close>

definition holding_of :: "string \<Rightarrow> string \<Rightarrow> rat option \<Rightarrow> news_item" where
  "holding_of t m amount =
     (t, \<lparr> entry_stock = \<lparr> ticker = t, yahoo_ticker = t, name = t, market = m,
                             sector = ''Unknown'', invested_inr = amount, gain_pct = None,
                             profit_inr = None \<rparr>,
            entry_articles = [] \<rparr>)"

text \<open>An article without a timestamp, a holding, and scores: no partial match, and a
  token score that compares the words of two titles as multisets.\<close>

definition sample_article :: article where
  "sample_article =
     \<lparr> title = ''Apple beats Q1 earnings'', link = ''https://example.com/a'',
       summary = ''Apple reported record revenue'', published = None,
       source = ''Yahoo'', body = Some ''one two three four'' \<rparr>"

definition sample_stock :: stock where
  "sample_stock =
     \<lparr> ticker = ''AAPL'', yahoo_ticker = ''AAPL'', name = ''Apple Inc.'', market = ''US'',
       sector = ''Technology'', invested_inr = Some 65000, gain_pct = Some (25 / 2),
       profit_inr = None \<rparr>"

definition sample_fuzz :: fuzz where
  "sample_fuzz =
     \<lparr> partial_ratio = (\<lambda>a b. 0),
       token_sort_ratio = (\<lambda>a b. if mset (py_split a) = mset (py_split b) then 100 else 0) \<rparr>"

text \<open>Stores of one and of two articles, settings with small word caps, and the loop
  state on entry of the filter.\<close>

definition sample_store :: store where
  "sample_store = \<lparr> cell = (\<lambda>a. sample_article), fresh = 1 \<rparr>"

definition zero_caps :: settings where
  "zero_caps = (settings_py None [])\<lparr> MAX_WORDS_PER_ARTICLE := 0 \<rparr>"

definition two_words :: settings where
  "two_words = (settings_py None [])\<lparr> MAX_WORDS_PER_ARTICLE := 2 \<rparr>"

definition two_articles :: store where
  "two_articles =
     \<lparr> cell = (\<lambda>a. if a = 0 then sample_article
                    else sample_article\<lparr> title := ''Earnings of Apple beats Q1'',
                                          published := Some 5 \<rparr>),
       fresh = 2 \<rparr>"

definition fresh_state :: "store \<Rightarrow> filter_state" where
  "fresh_state h =
     \<lparr> heap = h, filtered = [], seen_normalized_titles = [],
       counters = \<lparr> too_old = 0, irrelevant = 0, duplicate = 0, kept = 0 \<rparr> \<rparr>"














section \<open>Properties\<close>

subsection \<open>Words of a text\<close>

lemma split_from_nospace: "\<forall>c\<in>set u. \<not> is_space c \<Longrightarrow> split_from w (u @ s) = split_from (w @ u) s"
  by (induction u arbitrary: w) auto

lemma split_from_words:
  "\<forall>c\<in>set w0. \<not> is_space c \<Longrightarrow> \<forall>v\<in>set (split_from w0 s). v \<noteq> [] \<and> (\<forall>c\<in>set v. \<not> is_space c)"
proof (induction s arbitrary: w0)
  case Nil
  then show ?case by simp
next
  case (Cons a s)
  have e: "\<forall>v\<in>set (split_from [] s). v \<noteq> [] \<and> (\<forall>c\<in>set v. \<not> is_space c)"
    using Cons.IH[of "[]"] by simp
  show ?case
  proof (cases "is_space a")
    case True
    then show ?thesis using e Cons.prems by simp
  next
    case False
    then have "\<forall>c\<in>set (w0 @ [a]). \<not> is_space c" using Cons.prems by simp
    from Cons.IH[OF this] show ?thesis using False by simp
  qed
qed

lemma split_join:
  "ws \<noteq> [] \<Longrightarrow> \<forall>v\<in>set ws. v \<noteq> [] \<and> (\<forall>c\<in>set v. \<not> is_space c) \<Longrightarrow>
   split_from [] (py_join '' '' ws @ t) = butlast ws @ split_from (last ws) t"
proof (induction "'' ''" ws rule: py_join.induct)
  case 1 then show ?case by simp
next
  case (2 w) then show ?case using split_from_nospace[of w "[]" t] by simp
next
  case (3 w v ws)
  have sp: "is_space CHR '' ''" by (simp add: is_space_def)
  have "split_from [] (w @ '' '' @ py_join '' '' (v # ws) @ t) = split_from w ('' '' @ py_join '' '' (v # ws) @ t)"
    using split_from_nospace[of w "[]"] 3(3) by simp
  also have "\<dots> = w # split_from [] (py_join '' '' (v # ws) @ t)" using 3(3) sp by simp
  finally show ?case using 3 by simp
qed

lemma word_count_truncate_text:
  assumes "1 \<le> n"
  shows "int (word_count (truncate_text t n)) \<le> n"
proof (cases "int (length (py_split t)) \<le> n")
  case True
  then show ?thesis by (simp add: truncate_text_def word_count_def)
next
  case False
  define ws where "ws = take (nat n) (py_split t)"
  have len: "length ws = nat n" using False by (simp add: ws_def)
  then have ne: "ws \<noteq> []" using assms by auto
  have "\<forall>v\<in>set (py_split t). v \<noteq> [] \<and> (\<forall>c\<in>set v. \<not> is_space c)"
    unfolding py_split_def using split_from_words[of "[]" t] by simp
  then have good: "\<forall>v\<in>set ws. v \<noteq> [] \<and> (\<forall>c\<in>set v. \<not> is_space c)"
    unfolding ws_def by (meson in_set_takeD)
  have dots: "\<forall>c\<in>set ''...''. \<not> is_space c" by (simp add: is_space_def)
  have "last ws \<in> set ws" using ne by simp
  then have lne: "last ws \<noteq> []" using good by blast
  have "split_from (last ws) (''...'' @ []) = split_from (last ws @ ''...'') []"
    using dots by (rule split_from_nospace)
  then have tail: "split_from (last ws) ''...'' = [last ws @ ''...'']" by simp
  have tt: "truncate_text t n = py_join '' '' ws @ ''...''"
    using False assms by (simp add: truncate_text_def ws_def py_slice_to_def)
  have "py_split (truncate_text t n) = butlast ws @ [last ws @ ''...'']"
    unfolding tt py_split_def using split_join[OF ne good, of "''...''"] tail by simp
  then have "word_count (truncate_text t n) = length ws"
    using ne by (simp add: word_count_def)
  then show ?thesis using len assms by simp
qed

subsection \<open>The per-holding filter\<close>

lemma filter_body_cases:
  assumes "filter_body cfg fz cutoff stock m sf a st = (st', stop)"
  shows "(heap st' = heap st \<and> filtered st' = filtered st \<and> \<not> stop) \<or>
         (heap st' = kept_store cfg (heap st) a \<and> filtered st' = filtered st @ [fresh (heap st)] \<and>
          stop = (m \<le> int (length (filtered st)) + 1) \<and>
          too_old (counters st') = too_old (counters st))"
  using assms
  by (auto simp: filter_body_def Let_def dict_copy_def dict_update_def kept_store_def
           split: if_splits option.splits)

lemma filter_body_too_old:
  assumes "filter_body cfg fz cutoff stock m sf a st = (st', stop)"
  shows "too_old (counters st') =
         too_old (counters st) + (if (case published (cell (heap st) a) of None \<Rightarrow> False | Some pub \<Rightarrow> pub < cutoff) then 1 else 0)"
  using assms
  by (auto simp: filter_body_def Let_def dict_copy_def dict_update_def
           split: if_splits option.splits)

lemma filter_loop_length:
  "int (length (filtered st)) < m \<Longrightarrow>
   int (length (filtered (filter_loop cfg fz cutoff stock m sf as st))) \<le> m"
proof (induction as arbitrary: st)
  case Nil
  then show ?case by simp
next
  case (Cons a as)
  obtain st' stop where b: "filter_body cfg fz cutoff stock m sf a st = (st', stop)"
    by (cases "filter_body cfg fz cutoff stock m sf a st")
  from filter_body_cases[OF b] show ?case
  proof
    assume "heap st' = heap st \<and> filtered st' = filtered st \<and> \<not> stop"
    then show ?thesis using b Cons by simp
  next
    assume k: "heap st' = kept_store cfg (heap st) a \<and> filtered st' = filtered st @ [fresh (heap st)] \<and>
          stop = (m \<le> int (length (filtered st)) + 1) \<and> too_old (counters st') = too_old (counters st)"
    show ?thesis
    proof (cases stop)
      case True
      then show ?thesis using b k Cons.prems by simp
    next
      case False
      then have "int (length (filtered st')) < m" using k by simp
      from Cons.IH[OF this] show ?thesis using b False by simp
    qed
  qed
qed

lemma word_count_Nil: "word_count [] = 0" by (simp add: word_count_def py_split_def)

lemma within_caps_truncate_fields:
  assumes "1 \<le> MAX_WORDS_PER_ARTICLE cfg"
  shows "within_caps cfg (truncate_fields cfg art)"
proof -
  have s: "word_count (truncate_text s 150) \<le> 150" for s
    using word_count_truncate_text[of 150 s] by simp
  show ?thesis
    using assms s word_count_truncate_text[OF assms]
    by (auto simp: within_caps_def truncate_fields_def Let_def word_count_Nil split: option.splits)
qed

lemma filter_loop_inv:
  assumes "\<forall>a\<in>set as. a < fresh (heap st)" "\<forall>p\<in>set (filtered st). p < fresh (heap st)"
  shows "\<exists>zs. filtered (filter_loop cfg fz cutoff stock m sf as st) = filtered st @ zs \<and>
           (\<forall>p\<in>set zs. fresh (heap st) \<le> p \<and> p < fresh (heap (filter_loop cfg fz cutoff stock m sf as st))) \<and>
           subseq (map (cell (heap (filter_loop cfg fz cutoff stock m sf as st))) zs)
                  (map (\<lambda>a. truncate_fields cfg (cell (heap st) a)) as) \<and>
           (\<forall>x<fresh (heap st). cell (heap (filter_loop cfg fz cutoff stock m sf as st)) x = cell (heap st) x) \<and>
           fresh (heap st) \<le> fresh (heap (filter_loop cfg fz cutoff stock m sf as st))"
  using assms
proof (induction as arbitrary: st)
  case Nil
  then show ?case by simp
next
  case (Cons a as)
  let ?L = "filter_loop cfg fz cutoff stock m sf"
  obtain st' stop where b: "filter_body cfg fz cutoff stock m sf a st = (st', stop)"
    by (cases "filter_body cfg fz cutoff stock m sf a st")
  from filter_body_cases[OF b] show ?case
  proof
    assume u: "heap st' = heap st \<and> filtered st' = filtered st \<and> \<not> stop"
    then have e: "?L (a # as) st = ?L as st'" using b by simp
    have "\<forall>a\<in>set as. a < fresh (heap st')" "\<forall>p\<in>set (filtered st'). p < fresh (heap st')"
      using u Cons.prems by simp_all
    from Cons.IH[OF this] obtain zs where
      z: "filtered (?L as st') = filtered st' @ zs"
         "\<forall>p\<in>set zs. fresh (heap st') \<le> p \<and> p < fresh (heap (?L as st'))"
         "subseq (map (cell (heap (?L as st'))) zs) (map (\<lambda>a. truncate_fields cfg (cell (heap st') a)) as)"
         "\<forall>x<fresh (heap st'). cell (heap (?L as st')) x = cell (heap st') x"
         "fresh (heap st') \<le> fresh (heap (?L as st'))"
      by blast
    show ?thesis unfolding e
      apply (rule exI[of _ zs])
      using z u by (simp add: list_emb_Cons)
  next
    assume k: "heap st' = kept_store cfg (heap st) a \<and> filtered st' = filtered st @ [fresh (heap st)] \<and>
          stop = (m \<le> int (length (filtered st)) + 1) \<and> too_old (counters st') = too_old (counters st)"
    have fr: "fresh (heap st') = Suc (fresh (heap st))" using k by (simp add: kept_store_def)
    have old: "\<forall>x<fresh (heap st). cell (heap st') x = cell (heap st) x"
      using k by (simp add: kept_store_def)
    have new: "cell (heap st') (fresh (heap st)) = truncate_fields cfg (cell (heap st) a)"
      using k by (simp add: kept_store_def)
    show ?thesis
    proof (cases stop)
      case True
      then have e: "?L (a # as) st = st'" using b by simp
      show ?thesis unfolding e
        apply (rule exI[of _ "[fresh (heap st)]"])
        using k fr old new by simp
    next
      case False
      then have e: "?L (a # as) st = ?L as st'" using b by simp
      have "\<forall>a\<in>set as. a < fresh (heap st')" "\<forall>p\<in>set (filtered st'). p < fresh (heap st')"
        using k fr Cons.prems by (auto simp: less_Suc_eq)
      from Cons.IH[OF this] obtain zs where
        z: "filtered (?L as st') = filtered st' @ zs"
           "\<forall>p\<in>set zs. fresh (heap st') \<le> p \<and> p < fresh (heap (?L as st'))"
           "subseq (map (cell (heap (?L as st'))) zs) (map (\<lambda>a. truncate_fields cfg (cell (heap st') a)) as)"
           "\<forall>x<fresh (heap st'). cell (heap (?L as st')) x = cell (heap st') x"
           "fresh (heap st') \<le> fresh (heap (?L as st'))"
        by blast
      have m: "map (\<lambda>a. truncate_fields cfg (cell (heap st') a)) as = map (\<lambda>a. truncate_fields cfg (cell (heap st) a)) as"
        using old Cons.prems by simp
      have c: "cell (heap (?L as st')) (fresh (heap st)) = truncate_fields cfg (cell (heap st) a)"
        using z(4) fr new by simp
      have s3: "subseq (map (cell (heap (?L as st'))) (fresh (heap st) # zs))
                  (map (\<lambda>a. truncate_fields cfg (cell (heap st) a)) (a # as))"
        using z(3) c unfolding m by simp
      have s1: "filtered (?L as st') = filtered st @ fresh (heap st) # zs"
        using z(1) k by simp
      have s2: "\<forall>p\<in>set (fresh (heap st) # zs). fresh (heap st) \<le> p \<and> p < fresh (heap (?L as st'))"
        using z(2) z(5) fr by auto
      have s4: "\<forall>x<fresh (heap st). cell (heap (?L as st')) x = cell (heap st) x"
        using z(4) old fr by simp
      have s5: "fresh (heap st) \<le> fresh (heap (?L as st'))"
        using z(5) fr by simp
      show ?thesis unfolding e
        using s1 s2 s3 s4 s5 by blast
    qed
  qed
qed

lemma filter_loop_caps:
  assumes "1 \<le> MAX_WORDS_PER_ARTICLE cfg"
    and "\<forall>p\<in>set (filtered st). p < fresh (heap st) \<and> within_caps cfg (cell (heap st) p)"
  shows "\<forall>p\<in>set (filtered (filter_loop cfg fz cutoff stock m sf as st)).
           p < fresh (heap (filter_loop cfg fz cutoff stock m sf as st)) \<and>
           within_caps cfg (cell (heap (filter_loop cfg fz cutoff stock m sf as st)) p)"
  using assms(2)
proof (induction as arbitrary: st)
  case Nil
  then show ?case by simp
next
  case (Cons a as)
  let ?L = "filter_loop cfg fz cutoff stock m sf"
  obtain st' stop where b: "filter_body cfg fz cutoff stock m sf a st = (st', stop)"
    by (cases "filter_body cfg fz cutoff stock m sf a st")
  have inv': "\<forall>p\<in>set (filtered st'). p < fresh (heap st') \<and> within_caps cfg (cell (heap st') p)"
    using filter_body_cases[OF b]
  proof
    assume "heap st' = heap st \<and> filtered st' = filtered st \<and> \<not> stop"
    then show ?thesis using Cons.prems by simp
  next
    assume k: "heap st' = kept_store cfg (heap st) a \<and> filtered st' = filtered st @ [fresh (heap st)] \<and>
          stop = (m \<le> int (length (filtered st)) + 1) \<and> too_old (counters st') = too_old (counters st)"
    show ?thesis
      using k Cons.prems within_caps_truncate_fields[OF assms(1)]
      by (auto simp: kept_store_def less_Suc_eq)
  qed
  show ?case
  proof (cases stop)
    case True
    then show ?thesis using b inv' by simp
  next
    case False
    then show ?thesis using b Cons.IH[OF inv'] by simp
  qed
qed

text \<open>
  Claim C3, as the code has it. For every store, article list, holding, window and flag, a cap
  \<open>max_articles\<close> of at least 1 and a configured word cap of at least 1: the per-holding
  filter returns at most \<open>max_articles\<close> articles, and in every returned article the
  summary has at most 150 words and the body, when there is one, at most
  \<open>MAX_WORDS_PER_ARTICLE\<close> words.
\<close>

theorem filter_respects_caps:
  assumes "1 \<le> max_articles" and "1 \<le> MAX_WORDS_PER_ARTICLE cfg"
  shows "int (length (filtered (filter_news_for_stock cfg fz now h articles st days_back
                                  max_articles from_sector_feed))) \<le> max_articles \<and>
         (\<forall>p\<in>set (filtered (filter_news_for_stock cfg fz now h articles st days_back
                               max_articles from_sector_feed)).
            word_count (summary (cell (heap (filter_news_for_stock cfg fz now h articles st
                                   days_back max_articles from_sector_feed)) p)) \<le> 150 \<and>
            (case body (cell (heap (filter_news_for_stock cfg fz now h articles st
                                   days_back max_articles from_sector_feed)) p) of
               None \<Rightarrow> True
             | Some b \<Rightarrow> int (word_count b) \<le> MAX_WORDS_PER_ARTICLE cfg))"
proof -
  let ?st0 = "\<lparr> heap = h, filtered = [], seen_normalized_titles = [],
         counters = \<lparr> too_old = 0, irrelevant = 0, duplicate = 0, kept = 0 \<rparr> \<rparr>"
  have l: "int (length (filtered ?st0)) < max_articles" using assms(1) by simp
  have c: "\<forall>p\<in>set (filtered ?st0). p < fresh (heap ?st0) \<and> within_caps cfg (cell (heap ?st0) p)"
    by simp
  show ?thesis
    unfolding filter_news_for_stock_def
    using filter_loop_length[OF l] filter_loop_caps[OF assms(2) c]
    by (simp add: within_caps_def)
qed

text \<open>The hypotheses of C3 hold for a cap of one article and a word cap of two words.\<close>

theorem filter_respects_caps_witness:
  "(1::int) \<le> 1 \<and> 1 \<le> MAX_WORDS_PER_ARTICLE two_words \<and>
   int (length (filtered (filter_news_for_stock two_words sample_fuzz 0 sample_store [0, 0]
                            sample_stock 1 1 False))) \<le> 1 \<and>
   list_all
     (\<lambda>p. word_count (summary (cell (heap (filter_news_for_stock two_words sample_fuzz 0
                                   sample_store [0, 0] sample_stock 1 1 False)) p)) \<le> 150 \<and>
          (case body (cell (heap (filter_news_for_stock two_words sample_fuzz 0 sample_store
                                   [0, 0] sample_stock 1 1 False)) p) of
             None \<Rightarrow> True
           | Some b \<Rightarrow> int (word_count b) \<le> MAX_WORDS_PER_ARTICLE two_words))
     (filtered (filter_news_for_stock two_words sample_fuzz 0 sample_store [0, 0]
                  sample_stock 1 1 False))"
proof -
  have h1: "(1::int) \<le> 1" by simp
  have h2: "1 \<le> MAX_WORDS_PER_ARTICLE two_words" by (simp add: two_words_def settings_py_def)
  note t = filter_respects_caps[where cfg=two_words and fz=sample_fuzz and now=0
      and h=sample_store and articles="[0, 0]" and st=sample_stock and days_back=1
      and from_sector_feed=False, OF h1 h2]
  show ?thesis
    unfolding list_all_iff by (intro conjI h1 h2 t[THEN conjunct1] t[THEN conjunct2])
qed

lemmas eval_defs = filter_news_for_stock_def filter_body_def is_article_relevant_def
  is_duplicate_title_def dict_copy_def dict_update_def truncate_fields_def truncate_text_def
  py_split_def py_slice_to_def word_count_def is_space_def Let_def

text \<open>
  Claim C3 as stated, for every cap, fails for the caps 0: the length is compared with
  \<open>max_articles\<close> after the article is appended, so one article is returned, and
  \<open>truncate_text\<close> leaves the word \<open>...\<close> for the word cap 0.
\<close>

theorem filter_zero_caps_counterexample:
  "filtered (filter_news_for_stock zero_caps sample_fuzz 0 sample_store [0] sample_stock 1 0 False) = [1] \<and>
   \<not> int (length (filtered (filter_news_for_stock zero_caps sample_fuzz 0 sample_store [0]
                               sample_stock 1 0 False))) \<le> 0 \<and>
   body (cell (heap (filter_news_for_stock zero_caps sample_fuzz 0 sample_store [0] sample_stock
                       1 0 False)) 1) = Some ''...'' \<and>
   \<not> int (word_count ''...'') \<le> MAX_WORDS_PER_ARTICLE zero_caps"
  by (simp add: eval_defs zero_caps_def settings_py_def sample_store_def sample_article_def
        sample_fuzz_def)

text \<open>
  Claim C8. For every article and every holding, the relevance check of an article from a
  trusted per-holding source (\<open>from_sector_feed\<close> is false) is true, whatever the
  title, the summary, the alias table and the scores are.
\<close>

theorem trusted_source_always_relevant:
  "is_article_relevant cfg fz article st False = True"
  by (simp add: is_article_relevant_def)

text \<open>
  Claim C9. Duplicate detection is symmetric: for all titles \<open>A\<close> and \<open>B\<close> and
  every threshold, if \<open>A\<close> is flagged against the seen list that holds only the
  normalized \<open>B\<close>, then \<open>B\<close> is flagged against the seen list that holds only the
  normalized \<open>A\<close>. The score is the library's \<open>token_sort_ratio\<close>, a parameter here,
  taken to be symmetric in its two arguments.
\<close>

theorem duplicate_detection_symmetric:
  assumes "\<forall>x y. token_sort_ratio fz x y = token_sort_ratio fz y x"
    and "is_duplicate_title fz A [normalize_for_dedup B] threshold"
  shows "is_duplicate_title fz B [normalize_for_dedup A] threshold"
proof -
  have "threshold \<le> token_sort_ratio fz (normalize_for_dedup A) (normalize_for_dedup B)"
    using assms(2) by (simp add: is_duplicate_title_def split: if_splits)
  then have "threshold \<le> token_sort_ratio fz (normalize_for_dedup B) (normalize_for_dedup A)"
    using assms(1) by simp
  then show ?thesis by (simp add: is_duplicate_title_def)
qed

lemmas norm_defs = normalize_for_dedup_def py_lower_def lower_char_def is_alnum_or_space_def
  py_strip_def is_space_def char_of_def bit_iff_odd Let_def

lemma normalized_title_a: "normalize_for_dedup ''Apple beats Q1 earnings!'' = ''apple beats q1 earnings''"
  by (simp add: norm_defs)

lemma normalized_title_b: "normalize_for_dedup ''Q1 earnings: Apple beats'' = ''q1 earnings apple beats''"
  by (simp add: norm_defs)

text \<open>The hypotheses of C9 hold for a score that compares the words of the two titles
  as multisets, and two titles that differ in word order and punctuation.\<close>

theorem duplicate_detection_symmetric_witness:
  "(\<forall>x y. token_sort_ratio sample_fuzz x y = token_sort_ratio sample_fuzz y x) \<and>
   is_duplicate_title sample_fuzz ''Apple beats Q1 earnings!''
     [normalize_for_dedup ''Q1 earnings: Apple beats''] 70 \<and>
   is_duplicate_title sample_fuzz ''Q1 earnings: Apple beats''
     [normalize_for_dedup ''Apple beats Q1 earnings!''] 70"
proof -
  have h1: "\<forall>x y. token_sort_ratio sample_fuzz x y = token_sort_ratio sample_fuzz y x"
    by (auto simp: sample_fuzz_def)
  have h2: "is_duplicate_title sample_fuzz ''Apple beats Q1 earnings!''
              [normalize_for_dedup ''Q1 earnings: Apple beats''] 70"
    unfolding is_duplicate_title_def normalized_title_a normalized_title_b
    by (simp add: sample_fuzz_def py_split_def is_space_def)
  from h1 h2 duplicate_detection_symmetric[OF h1 h2] show ?thesis by blast
qed

lemma filter_loop_too_old:
  assumes "\<forall>a\<in>set as. a < fresh (heap st)"
  shows "too_old (counters (filter_loop cfg fz cutoff stock m sf as st)) \<le>
         too_old (counters st) + length (filter (\<lambda>a. published (cell (heap st) a) \<noteq> None) as)"
  using assms
proof (induction as arbitrary: st)
  case Nil
  then show ?case by simp
next
  case (Cons a as)
  let ?L = "filter_loop cfg fz cutoff stock m sf"
  obtain st' stop where b: "filter_body cfg fz cutoff stock m sf a st = (st', stop)"
    by (cases "filter_body cfg fz cutoff stock m sf a st")
  have t: "too_old (counters st') \<le> too_old (counters st) + (if published (cell (heap st) a) \<noteq> None then 1 else 0)"
    using filter_body_too_old[OF b] by (auto split: option.splits)
  show ?case
  proof (cases stop)
    case True
    then show ?thesis using b t by (cases "published (cell (heap st) a)") auto
  next
    case False
    have hp: "(\<forall>x<fresh (heap st). cell (heap st') x = cell (heap st) x) \<and> fresh (heap st) \<le> fresh (heap st')"
      using filter_body_cases[OF b] by (auto simp: kept_store_def)
    then have "\<forall>a\<in>set as. a < fresh (heap st')" using Cons.prems by auto
    from Cons.IH[OF this]
    have "too_old (counters (?L as st')) \<le>
          too_old (counters st') + length (filter (\<lambda>a. published (cell (heap st') a) \<noteq> None) as)" .
    moreover have "filter (\<lambda>a. published (cell (heap st') a) \<noteq> None) as =
                   filter (\<lambda>a. published (cell (heap st) a) \<noteq> None) as"
      using hp Cons.prems by (auto intro: filter_cong)
    ultimately show ?thesis using b False t by (cases "published (cell (heap st) a)") auto
  qed
qed

text \<open>
  Claim C7. For every article without a publication timestamp, \<open>is_recent\<close> is true for
  every window; one pass of the filter's loop body on such an article leaves the counter
  \<open>too_old\<close> as it was, so the article is not dropped for staleness; and over a whole
  run of the filter the counter \<open>too_old\<close> is at most the number of articles that do
  have a timestamp.
\<close>

theorem no_timestamp_never_stale:
  "(published article = None \<longrightarrow> is_recent now article window) \<and>
   (published (cell (heap s) a) = None \<longrightarrow>
      too_old (counters (fst (filter_body cfg fz cutoff st max_articles from_sector_feed a s))) =
      too_old (counters s)) \<and>
   ((\<forall>a\<in>set articles. a < fresh h) \<longrightarrow>
      too_old (counters (filter_news_for_stock cfg fz now h articles st days_back max_articles
                           from_sector_feed))
      \<le> length (filter (\<lambda>a. published (cell h a) \<noteq> None) articles))"
proof (intro conjI impI)
  assume "published article = None"
  then show "is_recent now article window" by (simp add: is_recent_def)
next
  assume n: "published (cell (heap s) a) = None"
  obtain s' stop where b: "filter_body cfg fz cutoff st max_articles from_sector_feed a s = (s', stop)"
    by (cases "filter_body cfg fz cutoff st max_articles from_sector_feed a s")
  show "too_old (counters (fst (filter_body cfg fz cutoff st max_articles from_sector_feed a s))) =
      too_old (counters s)"
    using filter_body_too_old[OF b] n b by simp
next
  assume w: "\<forall>a\<in>set articles. a < fresh h"
  let ?st0 = "\<lparr> heap = h, filtered = [], seen_normalized_titles = [],
         counters = \<lparr> too_old = 0, irrelevant = 0, duplicate = 0, kept = 0 \<rparr> \<rparr>"
  have "\<forall>a\<in>set articles. a < fresh (heap ?st0)" using w by simp
  from filter_loop_too_old[OF this]
  show "too_old (counters (filter_news_for_stock cfg fz now h articles st days_back max_articles
                           from_sector_feed))
      \<le> length (filter (\<lambda>a. published (cell h a) \<noteq> None) articles)"
    unfolding filter_news_for_stock_def by simp
qed

text \<open>The hypotheses of C7 hold for a store of two articles, the first without a
  timestamp.\<close>

theorem no_timestamp_never_stale_witness:
  "published sample_article = None \<and> is_recent 100 sample_article 1 \<and>
   published (cell (heap (fresh_state two_articles)) 0) = None \<and>
   too_old (counters (fst (filter_body two_words sample_fuzz 100 sample_stock 5 False 0
                             (fresh_state two_articles)))) =
     too_old (counters (fresh_state two_articles)) \<and>
   list_all (\<lambda>a. a < fresh two_articles) [0, 1] \<and>
   too_old (counters (filter_news_for_stock two_words sample_fuzz 100 two_articles [0, 1]
                        sample_stock 0 5 False))
     \<le> length (filter (\<lambda>a. published (cell two_articles a) \<noteq> None) [0, 1])"
proof -
  have h1: "published sample_article = None" by (simp add: sample_article_def)
  have h2: "published (cell (heap (fresh_state two_articles)) 0) = None"
    by (simp add: fresh_state_def two_articles_def sample_article_def)
  have h3: "\<forall>a\<in>set [0, 1]. a < fresh two_articles" by (simp add: two_articles_def)
  note t = no_timestamp_never_stale[where article=sample_article and now=100 and window=1
      and s="fresh_state two_articles" and a=0 and cfg=two_words and fz=sample_fuzz
      and cutoff=100 and st=sample_stock and max_articles=5 and from_sector_feed=False
      and articles="[0, 1]" and h=two_articles and days_back=0]
  note c1 = mp[OF t[THEN conjunct1] h1]
  note c2 = mp[OF t[THEN conjunct2, THEN conjunct1] h2]
  note c3 = mp[OF t[THEN conjunct2, THEN conjunct2] h3]
  show ?thesis unfolding list_all_iff by (intro conjI h1 h2 h3 c1 c2 c3)
qed

text \<open>
  Claim C10. The per-holding filter does not mutate its input. For every list of allocated
  article dicts: every dict allocated before the call is unchanged on return, the returned
  list holds only addresses allocated during the call (the copies), and the dicts of the
  returned list are, in the original order, a subsequence of the input dicts with their
  summary and body truncated.
\<close>

theorem filter_leaves_input_unchanged:
  assumes "\<forall>a\<in>set articles. a < fresh h"
  shows "(\<forall>x<fresh h. cell (heap (filter_news_for_stock cfg fz now h articles st days_back
                                    max_articles from_sector_feed)) x = cell h x) \<and>
         (\<forall>p\<in>set (filtered (filter_news_for_stock cfg fz now h articles st days_back
                               max_articles from_sector_feed)). fresh h \<le> p) \<and>
         subseq (map (cell (heap (filter_news_for_stock cfg fz now h articles st days_back
                                    max_articles from_sector_feed)))
                   (filtered (filter_news_for_stock cfg fz now h articles st days_back
                                max_articles from_sector_feed)))
                (map (\<lambda>a. truncate_fields cfg (cell h a)) articles)"
proof -
  let ?st0 = "\<lparr> heap = h, filtered = [], seen_normalized_titles = [],
         counters = \<lparr> too_old = 0, irrelevant = 0, duplicate = 0, kept = 0 \<rparr> \<rparr>"
  have a: "\<forall>a\<in>set articles. a < fresh (heap ?st0)" using assms by simp
  have b: "\<forall>p\<in>set (filtered ?st0). p < fresh (heap ?st0)" by simp
  from filter_loop_inv[OF a b, of cfg fz "now - days_back * microseconds_per_day" st max_articles from_sector_feed]
  show ?thesis unfolding filter_news_for_stock_def by auto
qed

text \<open>The hypothesis of C10 holds for a store of two articles.\<close>

theorem filter_leaves_input_unchanged_witness:
  "list_all (\<lambda>a. a < fresh two_articles) [0, 1] \<and>
   cell (heap (filter_news_for_stock two_words sample_fuzz 0 two_articles [0, 1] sample_stock
                 1 5 False)) 0 = cell two_articles 0 \<and>
   cell (heap (filter_news_for_stock two_words sample_fuzz 0 two_articles [0, 1] sample_stock
                 1 5 False)) 1 = cell two_articles 1 \<and>
   list_all (\<lambda>p. fresh two_articles \<le> p)
     (filtered (filter_news_for_stock two_words sample_fuzz 0 two_articles [0, 1]
                  sample_stock 1 5 False)) \<and>
   subseq (map (cell (heap (filter_news_for_stock two_words sample_fuzz 0 two_articles [0, 1]
                              sample_stock 1 5 False)))
             (filtered (filter_news_for_stock two_words sample_fuzz 0 two_articles [0, 1]
                          sample_stock 1 5 False)))
          (map (\<lambda>a. truncate_fields two_words (cell two_articles a)) [0, 1])"
proof -
  have h: "\<forall>a\<in>set [0, 1]. a < fresh two_articles" by (simp add: two_articles_def)
  have f0: "0 < fresh two_articles" and f1: "1 < fresh two_articles"
    by (simp_all add: two_articles_def)
  note t = filter_leaves_input_unchanged[where cfg=two_words and fz=sample_fuzz and now=0
      and st=sample_stock and days_back=1 and max_articles=5 and from_sector_feed=False, OF h]
  note frame = t[THEN conjunct1]
  show ?thesis
    unfolding list_all_iff
    by (intro conjI h frame[rule_format, OF f0] frame[rule_format, OF f1]
          t[THEN conjunct2, THEN conjunct1] t[THEN conjunct2, THEN conjunct2])
qed

subsection \<open>Rounding to a double\<close>

lemma bit_length_nonpos: "p \<le> 0 \<Longrightarrow> bit_length p = 0"
  by (simp add: bit_length.simps)

lemma bit_length_pos: "0 < p \<Longrightarrow> bit_length p = Suc (bit_length (p div 2))"
  by (subst bit_length.simps) simp

lemma float_1_1_value: "float_1_1 = 2476979795053773 / 2251799813685248"
  by code_simp

lemma bit_length_bounds:
  "0 < p \<Longrightarrow> 2 ^ (bit_length p - 1) \<le> p \<and> p < 2 ^ bit_length p"
proof (induction p rule: bit_length.induct)
  case (1 p)
  show ?case
  proof (cases "p div 2 \<le> 0")
    case True
    then have "p = 1" using "1.prems" by linarith
    then show ?thesis by (simp add: bit_length_pos bit_length_nonpos)
  next
    case False
    then have h: "0 < p div 2" by simp
    have "\<not> p \<le> 0" using "1.prems" by simp
    from "1.IH"[OF this h]
    have ih: "2 ^ (bit_length (p div 2) - 1) \<le> p div 2" "p div 2 < 2 ^ bit_length (p div 2)"
      by simp_all
    have pos: "0 < bit_length (p div 2)" using h by (simp add: bit_length_pos)
    then obtain k where k: "bit_length (p div 2) = Suc k" by (cases "bit_length (p div 2)") auto
    have b: "bit_length p = Suc (Suc k)" using "1.prems" k by (simp add: bit_length_pos)
    have "(2::int) ^ Suc k \<le> 2 * (p div 2)" using ih(1) k by simp
    moreover have "2 * (p div 2) \<le> p" by linarith
    moreover have "p < 2 * (p div 2) + 2" by linarith
    moreover have "2 * (p div 2) + 2 \<le> 2 * 2 ^ Suc k" using ih(2) k by simp
    ultimately show ?thesis unfolding b by simp
  qed
qed

lemma floor_log2_bounds:
  assumes "0 < x"
  shows "2 powi (floor_log2 x) \<le> x \<and> x < 2 powi (floor_log2 x + 1)"
proof (cases "1 \<le> x")
  case True
  let ?n = "\<lfloor>x\<rfloor>"
  let ?b = "bit_length ?n"
  have n: "0 < ?n" using True by simp
  from bit_length_bounds[OF n] have bb: "2 ^ (?b - 1) \<le> ?n" "?n < 2 ^ ?b" by simp_all
  have bpos: "0 < ?b" using n by (simp add: bit_length_pos)
  have fl: "floor_log2 x = int (?b - 1)" using True bpos by (simp add: floor_log2_def)
  have fl1: "floor_log2 x + 1 = int ?b" using fl bpos by simp
  have "rat_of_int (2 ^ (?b - 1)) \<le> rat_of_int ?n" using bb(1) by (simp only: of_int_le_iff)
  also have "\<dots> \<le> x" by simp
  finally have lo: "2 ^ (?b - 1) \<le> x" by simp
  have "?n + 1 \<le> 2 ^ ?b" using bb(2) by simp
  then have "rat_of_int (?n + 1) \<le> rat_of_int (2 ^ ?b)" by (simp only: of_int_le_iff)
  moreover have "x < rat_of_int (?n + 1)" by linarith
  ultimately have hi: "x < 2 ^ ?b" by simp
  show ?thesis unfolding fl1 unfolding fl using lo hi by simp
next
  case False
  let ?y = "1 / x"
  let ?m = "\<lceil>?y\<rceil> - 1"
  let ?b = "bit_length ?m"
  have y1: "1 < ?y" using False assms by simp
  then have m: "0 < ?m" by linarith
  from bit_length_bounds[OF m] have bb: "2 ^ (?b - 1) \<le> ?m" "?m < 2 ^ ?b" by simp_all
  have bpos: "0 < ?b" using m by (simp add: bit_length_pos)
  have fl: "floor_log2 x = - int ?b" using False by (simp add: floor_log2_def)
  have fl1: "floor_log2 x + 1 = - int (?b - 1)" using fl bpos by simp
  have "\<lceil>?y\<rceil> \<le> 2 ^ ?b" using bb(2) by simp
  then have "rat_of_int \<lceil>?y\<rceil> \<le> rat_of_int (2 ^ ?b)" by (simp only: of_int_le_iff)
  moreover have "?y \<le> rat_of_int \<lceil>?y\<rceil>" by (rule le_of_int_ceiling)
  moreover have "rat_of_int (2 ^ ?b) = 2 ^ ?b" by simp
  ultimately have "?y \<le> 2 ^ ?b" by linarith
  then have "1 \<le> x * 2 ^ ?b" using assms by (simp add: field_simps)
  then have lo: "1 / 2 ^ ?b \<le> x" by (simp add: field_simps)
  have "rat_of_int (2 ^ (?b - 1)) \<le> rat_of_int ?m" using bb(1) by (simp only: of_int_le_iff)
  moreover have "rat_of_int ?m < ?y" by linarith
  moreover have "rat_of_int (2 ^ (?b - 1)) = 2 ^ (?b - 1)" by simp
  ultimately have "2 ^ (?b - 1) < ?y" by linarith
  then have "x * 2 ^ (?b - 1) < 1" using assms by (simp add: field_simps)
  then have hi: "x < 1 / 2 ^ (?b - 1)" by (simp add: field_simps)
  show ?thesis unfolding fl1 unfolding fl using lo hi
    by (simp add: power_int_minus field_simps)
qed

lemma round_half_even_ge: "y - 1 / 2 \<le> rat_of_int (round_half_even y)"
proof -
  have "y < rat_of_int \<lfloor>y\<rfloor> + 1" by linarith
  moreover have "rat_of_int \<lfloor>y\<rfloor> \<le> y" by simp
  ultimately show ?thesis by (auto simp: round_half_even_def Let_def)
qed

lemma scaled_round_ge:
  assumes "0 < q"
  shows "y - q / 2 \<le> rat_of_int (round_half_even (y / q)) * q"
proof -
  have "(y / q - 1 / 2) * q \<le> rat_of_int (round_half_even (y / q)) * q"
    using round_half_even_ge[of "y / q"] assms by (simp only: mult_le_cancel_right_pos)
  moreover have "(y / q - 1 / 2) * q = y - q / 2" using assms by (simp add: field_simps)
  ultimately show ?thesis by simp
qed

lemma round_to_double_ge:
  assumes "2 powi (- 1022) \<le> y"
  shows "y * (1 - 1 / 2 ^ 53) \<le> round_to_double y"
proof -
  have ypos: "0 < y"
  proof -
    have "(0::rat) < 2 powi (- 1022)" by simp
    then show ?thesis using assms by linarith
  qed
  have ay: "\<bar>y\<bar> = y" using ypos by simp
  note b = floor_log2_bounds[OF ypos]
  have e: "- 1022 \<le> floor_log2 y"
  proof (rule ccontr)
    assume "\<not> - 1022 \<le> floor_log2 y"
    then have "floor_log2 y + 1 \<le> - 1022" by simp
    then have "(2::rat) powi (floor_log2 y + 1) \<le> 2 powi (- 1022)"
      by (intro power_int_increasing) simp_all
    then show False using b assms by linarith
  qed
  let ?q = "(2::rat) powi (floor_log2 y - 52)"
  have qpos: "0 < ?q" by simp
  have q: "?q = 2 powi (floor_log2 y) / 2 ^ 52"
    by (simp add: power_int_diff)
  have r: "round_to_double y = rat_of_int (round_half_even (y / ?q)) * ?q"
    using ypos e ay by (simp add: round_to_double_def Let_def max_def)
  have "y - ?q / 2 \<le> round_to_double y"
    unfolding r using qpos by (rule scaled_round_ge)
  moreover have "?q \<le> y / 2 ^ 52" unfolding q using b by (simp add: field_simps)
  ultimately show ?thesis by (simp add: field_simps)
qed

lemma boost_increases:
  assumes "2 powi (- 1022) \<le> x"
  shows "x < float_mul x float_1_1"
proof -
  have xpos: "0 < x"
  proof -
    have "(0::rat) < 2 powi (- 1022)" by simp
    then show ?thesis using assms by linarith
  qed
  have "x \<le> x * float_1_1" using xpos by (simp add: float_1_1_value)
  then have "2 powi (- 1022) \<le> x * float_1_1" using assms by linarith
  from round_to_double_ge[OF this]
  have "x * float_1_1 * (1 - 1 / 2 ^ 53) \<le> float_mul x float_1_1" by (simp add: float_mul_def)
  moreover have "1 < float_1_1 * (1 - 1 / 2 ^ 53)" by (simp add: float_1_1_value)
  then have "x * 1 < x * (float_1_1 * (1 - 1 / 2 ^ 53))"
    using xpos by (simp only: mult_less_cancel_left_pos)
  ultimately show ?thesis by (simp add: mult.assoc)
qed

subsection \<open>Batches and their order\<close>

lemma concat_batches_take:
  "concat (map (\<lambda>k. take b (drop (k * b) xs)) [0..<m]) = take (m * b) xs"
proof (induction m)
  case 0
  then show ?case by simp
next
  case (Suc m)
  have "take (m * b) xs @ take b (drop (m * b) xs) = take (m * b + b) xs"
    by (simp add: take_add)
  then show ?case using Suc by (simp add: add.commute)
qed

lemma ceil_div_covers:
  assumes "0 < (b::nat)"
  shows "n \<le> ((n + b - 1) div b) * b"
proof -
  have "n + b - 1 < b + ((n + b - 1) div b) * b"
    using dividend_less_div_times[OF assms, of "n + b - 1"] by simp
  then show ?thesis using assms by arith
qed

lemma below_ceil_div:
  assumes "0 < (b::nat)" and "k < (n + b - 1) div b"
  shows "k * b < n"
proof -
  have "Suc k \<le> (n + b - 1) div b" using assms(2) by simp
  then have "Suc k * b \<le> n + b - 1"
    using assms(1) by (simp add: less_eq_div_iff_mult_less_eq)
  then show ?thesis using assms(1) by (cases n) auto
qed

text \<open>
  Claim C5. For every list of \<open>N\<close> holdings and every positive \<open>batch_size\<close>, the
  batches are contiguous pieces of the sorted list (their concatenation is the list, so
  every holding is in exactly one batch), each of size at most \<open>batch_size\<close> and none
  empty; there are \<open>N / batch_size\<close> of them, rounded up, hence none when \<open>N = 0\<close>.
\<close>

theorem batches_partition:
  assumes "0 < batch_size"
  shows "\<exists>batches. batches_of batch_size xs = Inr batches \<and>
           concat batches = xs \<and>
           (\<forall>b\<in>set batches. b \<noteq> [] \<and> length b \<le> batch_size) \<and>
           length batches = (length xs + batch_size - 1) div batch_size"
proof -
  let ?m = "(length xs + batch_size - 1) div batch_size"
  let ?bs = "map (\<lambda>k. take batch_size (drop (k * batch_size) xs)) [0..<?m]"
  have e: "batches_of batch_size xs = Inr ?bs"
    using assms by (simp add: batches_of_def range_step_def comp_def)
  have c: "concat ?bs = xs"
    using ceil_div_covers[OF assms, of "length xs"] by (simp add: concat_batches_take)
  have n: "\<forall>b\<in>set ?bs. b \<noteq> [] \<and> length b \<le> batch_size"
  proof
    fix b assume "b \<in> set ?bs"
    then obtain k where k: "k < ?m" "b = take batch_size (drop (k * batch_size) xs)" by auto
    have "k * batch_size < length xs" using below_ceil_div[OF assms k(1)] .
    then show "b \<noteq> [] \<and> length b \<le> batch_size" using k(2) assms by simp
  qed
  show ?thesis using e c n by simp
qed

text \<open>The hypothesis of C5 holds for 12 holdings and the batch size 5.\<close>

theorem batches_partition_witness:
  "(0::nat) < 5 \<and>
   (\<exists>batches. batches_of 5 [1, 2, 3, 4, 5, 6, 7, 8, 9, 10, 11, 12 :: nat] = Inr batches \<and>
      concat batches = [1, 2, 3, 4, 5, 6, 7, 8, 9, 10, 11, 12] \<and>
      (\<forall>b\<in>set batches. b \<noteq> [] \<and> length b \<le> 5) \<and>
      length batches = (length [1, 2, 3, 4, 5, 6, 7, 8, 9, 10, 11, 12 :: nat] + 5 - 1) div 5)"
proof -
  have h: "(0::nat) < 5" by simp
  from h batches_partition[OF h] show ?thesis by blast
qed

lemma key_boosted: "investment_key item = - boosted_amount item"
  by (cases item) (simp add: investment_key_def boosted_amount_def invested_amount_def
        in_boosted_market_def Let_def)

lemma boosted_plain:
  assumes "float_amount (invested_amount a)" "\<not> in_boosted_market a"
  shows "boosted_amount a = invested_amount a"
  using assms by (simp add: boosted_amount_def float_mul_def float_amount_def)

text \<open>
  Claim C6, as the code has it. For every list of holdings whose invested amounts are
  floats of magnitude at most \<open>2^1023\<close> (or unknown, which counts as 0):
  \<open>sort_by_investment\<close> permutes its input and orders it by boosted amount descending,
  the boosted amount being the float product of the invested amount and 1.1 for a holding
  of the market \<open>IN\<close> and the invested amount itself otherwise. Hence a holding of the
  market \<open>IN\<close> never comes after a holding of another market whose invested amount is
  below the boosted amount of the \<open>IN\<close> holding; in particular, at equal invested amounts
  of at least \<open>2^(-1022)\<close> the \<open>IN\<close> holding comes first. Holdings with the same
  boosted amount keep their input order.
\<close>

theorem sort_by_investment_order:
  assumes "\<forall>item\<in>set xs. float_amount (invested_amount item)"
  shows "mset (sort_by_investment xs) = mset xs \<and>
         sorted_wrt (\<lambda>a b. boosted_amount b \<le> boosted_amount a) (sort_by_investment xs) \<and>
         sorted_wrt (\<lambda>a b. \<not> (in_boosted_market b \<and> \<not> in_boosted_market a \<and>
                              invested_amount a < boosted_amount b))
           (sort_by_investment xs) \<and>
         sorted_wrt (\<lambda>a b. \<not> (in_boosted_market b \<and> \<not> in_boosted_market a \<and>
                              invested_amount a = invested_amount b \<and>
                              2 powi (- 1022) \<le> invested_amount b))
           (sort_by_investment xs) \<and>
         (\<forall>k. filter (\<lambda>x. boosted_amount x = k) (sort_by_investment xs) =
              filter (\<lambda>x. boosted_amount x = k) xs)"
proof -
  have m: "mset (sort_by_investment xs) = mset xs" by (simp add: sort_by_investment_def)
  have fl: "float_amount (invested_amount a)" if "a \<in> set (sort_by_investment xs)" for a
    using that assms by (simp add: sort_by_investment_def)
  have "sorted (map investment_key (sort_by_investment xs))"
    by (simp add: sort_by_investment_def)
  then have s: "sorted_wrt (\<lambda>a b. boosted_amount b \<le> boosted_amount a) (sort_by_investment xs)"
    by (simp add: sorted_wrt_map key_boosted)
  have w: "sorted_wrt (\<lambda>a b. \<not> (in_boosted_market b \<and> \<not> in_boosted_market a \<and>
                              invested_amount a < boosted_amount b))
           (sort_by_investment xs)"
  proof (rule sorted_wrt_mono_rel[OF _ s])
    fix a b
    assume a: "a \<in> set (sort_by_investment xs)" and le: "boosted_amount b \<le> boosted_amount a"
    show "\<not> (in_boosted_market b \<and> \<not> in_boosted_market a \<and>
              invested_amount a < boosted_amount b)"
      using boosted_plain[OF fl[OF a]] le by auto
  qed
  have e: "sorted_wrt (\<lambda>a b. \<not> (in_boosted_market b \<and> \<not> in_boosted_market a \<and>
                              invested_amount a = invested_amount b \<and>
                              2 powi (- 1022) \<le> invested_amount b))
           (sort_by_investment xs)"
  proof (rule sorted_wrt_mono_rel[OF _ w])
    fix a b
    assume n: "\<not> (in_boosted_market b \<and> \<not> in_boosted_market a \<and>
                  invested_amount a < boosted_amount b)"
    show "\<not> (in_boosted_market b \<and> \<not> in_boosted_market a \<and>
              invested_amount a = invested_amount b \<and> 2 powi (- 1022) \<le> invested_amount b)"
    proof
      assume c: "in_boosted_market b \<and> \<not> in_boosted_market a \<and>
              invested_amount a = invested_amount b \<and> 2 powi (- 1022) \<le> invested_amount b"
      then have "invested_amount b < boosted_amount b"
        using boost_increases[of "invested_amount b"] by (simp add: boosted_amount_def)
      then show False using n c by simp
    qed
  qed
  have st: "filter (\<lambda>x. boosted_amount x = k) (sort_by_investment xs) =
        filter (\<lambda>x. boosted_amount x = k) xs" for k
    using sort_key_stable[of investment_key "- k" xs]
    by (simp add: sort_by_investment_def key_boosted)
  show ?thesis using m s w e st by blast
qed

lemma float_55000: "float_amount 55000" unfolding float_amount_def by code_simp

lemma float_50000: "float_amount 50000" unfolding float_amount_def by code_simp

lemma boosted_50000: "float_mul 50000 float_1_1 = 55000 + 1 / 2 ^ 37" by code_simp

lemma plain_55000: "float_mul 55000 1 = 55000" by code_simp

text \<open>The hypothesis of C6 holds for a holding of the market \<open>US\<close> with 55000 invested
  followed by one of the market \<open>IN\<close> with 50000: the float product of 50000 and 1.1 is
  above 55000, and the \<open>IN\<close> holding sorts first.\<close>

theorem sort_by_investment_order_witness:
  "list_all (\<lambda>item. float_amount (invested_amount item))
     [holding_of ''US1'' ''US'' (Some 55000), holding_of ''IN1'' ''IN'' (Some 50000)] \<and>
   sort_by_investment
     [holding_of ''US1'' ''US'' (Some 55000), holding_of ''IN1'' ''IN'' (Some 50000)] =
     [holding_of ''IN1'' ''IN'' (Some 50000), holding_of ''US1'' ''US'' (Some 55000)] \<and>
   sorted_wrt (\<lambda>a b. boosted_amount b \<le> boosted_amount a)
     (sort_by_investment
        [holding_of ''US1'' ''US'' (Some 55000), holding_of ''IN1'' ''IN'' (Some 50000)])"
proof -
  have h: "\<forall>item\<in>set [holding_of ''US1'' ''US'' (Some 55000),
                        holding_of ''IN1'' ''IN'' (Some 50000)].
             float_amount (invested_amount item)"
    by (simp add: holding_of_def invested_amount_def float_55000 float_50000)
  have o: "sort_by_investment
     [holding_of ''US1'' ''US'' (Some 55000), holding_of ''IN1'' ''IN'' (Some 50000)] =
     [holding_of ''IN1'' ''IN'' (Some 50000), holding_of ''US1'' ''US'' (Some 55000)]"
    by (simp add: sort_by_investment_def investment_key_def holding_of_def boosted_50000
          plain_55000)
  note t = sort_by_investment_order[OF h]
  show ?thesis
    unfolding list_all_iff by (intro conjI h o t[THEN conjunct2, THEN conjunct1])
qed

text \<open>
  Claim C6 as stated fails at equal invested amounts that are unknown or 0: both keys are
  0, the sort is stable, and the holding of the market \<open>IN\<close> stays behind the other.
\<close>

theorem sort_equal_amounts_counterexample:
  "sort_by_investment [holding_of ''US1'' ''US'' None, holding_of ''IN1'' ''IN'' None] =
     [holding_of ''US1'' ''US'' None, holding_of ''IN1'' ''IN'' None] \<and>
   sort_by_investment [holding_of ''US1'' ''US'' (Some 0), holding_of ''IN1'' ''IN'' (Some 0)] =
     [holding_of ''US1'' ''US'' (Some 0), holding_of ''IN1'' ''IN'' (Some 0)]"
  by (simp add: sort_by_investment_def investment_key_def holding_of_def float_mul_def
        round_to_double_def)

subsection \<open>The retry and fallback controller\<close>










subsection \<open>Placeholder results\<close>







subsection \<open>The daily analysis\<close>

lemma no_model_error: "\<not> py_in ''429'' ''NoneType object has no attribute generate_content''"
  by simp



















end
